theory Spec2Isabelle
  imports Main "HOL-Library.Multiset" "HOL-Library.Word"
begin

section \<open>Text and the sensitive-ID pattern (utilities.py, regex_pattern)\<close>

text \<open>
  A Python string is a \<open>string\<close> here, one \<open>char\<close> per code point, which covers the
  code points below 256; on these \<open>\d\<close> and \<open>[0-9]\<close> match the same characters.

  The pattern is
  \<^verbatim>\<open>(?<!\d)(?<!\.)(?<!rs)(?<!RS)(?<!Rs)(?<!rS)(10[0-9]{5}|[1-5][0-9]{6}|6[0-4][0-9]{5}|6500000)(?!\d)\<close>:
  six negative lookbehinds, one group of four alternatives, one negative lookahead.
  An alternative is a sequence of atoms, a literal character or a character class
  \<open>[lo-hi]\<close>, with \<open>x{n}\<close> written as \<open>n\<close> copies of \<open>x\<close>.
\<close>

datatype atom = Lit char | Cls char char

fun atom_ok :: "atom \<Rightarrow> char \<Rightarrow> bool" where
  "atom_ok (Lit l) c = (c = l)"
| "atom_ok (Cls lo hi) c = ((of_char lo :: nat) \<le> of_char c \<and> (of_char c :: nat) \<le> of_char hi)"

fun match_seq :: "atom list \<Rightarrow> string \<Rightarrow> string option" where
  "match_seq [] w = Some []"
| "match_seq (a # atoms) [] = None"
| "match_seq (a # atoms) (c # cs) =
     (if atom_ok a c then map_option (Cons c) (match_seq atoms cs) else None)"

definition digit_cls :: atom where
  "digit_cls = Cls (CHR ''0'') (CHR ''9'')"

definition is_digit :: "char \<Rightarrow> bool" where
  "is_digit c = atom_ok digit_cls c"

definition id_alternatives :: "atom list list" where
  "id_alternatives =
     [ [Lit (CHR ''1''), Lit (CHR ''0'')] @ replicate 5 digit_cls,
       [Cls (CHR ''1'') (CHR ''5'')] @ replicate 6 digit_cls,
       [Lit (CHR ''6''), Cls (CHR ''0'') (CHR ''4'')] @ replicate 5 digit_cls,
       map Lit ''6500000'' ]"

definition lookahead_not_digit :: "string \<Rightarrow> bool" where
  "lookahead_not_digit rest = (case rest of [] \<Rightarrow> True | c # _ \<Rightarrow> \<not> is_digit c)"

text \<open>
  The alternatives are tried in order; one that matches but is followed by a digit
  fails the lookahead, and the matcher backtracks to the next.
\<close>

fun try_alts :: "atom list list \<Rightarrow> string \<Rightarrow> string option" where
  "try_alts [] rest = None"
| "try_alts (a # atoms) rest =
     (case match_seq a rest of
        Some w \<Rightarrow> if lookahead_not_digit (drop (length w) rest) then Some w
                  else try_alts atoms rest
      | None \<Rightarrow> try_alts atoms rest)"

definition ends_with :: "string \<Rightarrow> string \<Rightarrow> bool" where
  "ends_with pre lit =
     (length lit \<le> length pre \<and> drop (length pre - length lit) pre = lit)"

definition lookbehind_ok :: "string \<Rightarrow> bool" where
  "lookbehind_ok pre =
     (\<not> (pre \<noteq> [] \<and> is_digit (last pre)) \<and>
      \<not> ends_with pre ''.'' \<and>
      \<not> ends_with pre ''rs'' \<and>
      \<not> ends_with pre ''RS'' \<and>
      \<not> ends_with pre ''Rs'' \<and>
      \<not> ends_with pre ''rS'')"

definition match_at :: "string \<Rightarrow> nat \<Rightarrow> string option" where
  "match_at s i =
     (if lookbehind_ok (take i s) then try_alts id_alternatives (drop i s) else None)"

text \<open>
  \<open>re.findall\<close>: scan from the left; at a position where the pattern matches, take
  the group and continue behind the match, else move one character on.
  \<open>re.search\<close> stops at the first position that matches.
\<close>

function findall_from :: "string \<Rightarrow> nat \<Rightarrow> string list" where
  "findall_from s i =
     (if length s < i then []
      else case match_at s i of
             Some w \<Rightarrow> w # findall_from s (i + max 1 (length w))
           | None \<Rightarrow> findall_from s (i + 1))"
  by pat_completeness auto
termination
  by (relation "measure (\<lambda>(s, i). length s + 1 - i)") auto

declare findall_from.simps [simp del]

definition regex_findall :: "string \<Rightarrow> string list" where
  "regex_findall s = findall_from s 0"

function search_from :: "string \<Rightarrow> nat \<Rightarrow> bool" where
  "search_from s i =
     (if length s < i then False
      else case match_at s i of Some w \<Rightarrow> True | None \<Rightarrow> search_from s (i + 1))"
  by pat_completeness auto
termination
  by (relation "measure (\<lambda>(s, i). length s + 1 - i)") auto

declare search_from.simps [simp del]

definition regex_search :: "string \<Rightarrow> bool" where
  "regex_search s = search_from s 0"


subsection \<open>The pattern as the specification words it\<close>

definition decimal_digit :: "char \<Rightarrow> bool" where
  "decimal_digit c = (c \<in> set ''0123456789'')"

definition digit_value :: "char \<Rightarrow> nat" where
  "digit_value c = of_char c - 48"

definition decimal_value :: "string \<Rightarrow> nat" where
  "decimal_value w = foldl (\<lambda>n c. 10 * n + digit_value c) 0 w"

definition rs_letters :: "char \<Rightarrow> char \<Rightarrow> bool" where
  "rs_letters a b = ((a = CHR ''r'' \<or> a = CHR ''R'') \<and> (b = CHR ''s'' \<or> b = CHR ''S''))"

definition seven_digit_id :: "string \<Rightarrow> bool" where
  "seven_digit_id w =
     (length w = 7 \<and> list_all decimal_digit w \<and>
      1000000 \<le> decimal_value w \<and> decimal_value w \<le> 6500000)"

definition sensitive_id_at :: "string \<Rightarrow> nat \<Rightarrow> bool" where
  "sensitive_id_at s i =
     (i + 7 \<le> length s \<and> seven_digit_id (take 7 (drop i s)) \<and>
      \<not> (0 < i \<and> decimal_digit (s ! (i - 1))) \<and>
      \<not> (0 < i \<and> s ! (i - 1) = CHR ''.'') \<and>
      \<not> (2 \<le> i \<and> rs_letters (s ! (i - 2)) (s ! (i - 1))) \<and>
      \<not> (i + 7 < length s \<and> decimal_digit (s ! (i + 7))))"


section \<open>Errors and Python values\<close>

text \<open>
  Every exception the modelled code can raise is a value of \<open>error\<close>; a function that
  can raise returns \<open>error + 'a\<close>, with \<open>Inl\<close> for the exception.
\<close>

datatype error =
  CalledProcessError | UnicodeDecodeError | UnboundLocalError | ValueError | IndexError | KeyError

datatype py_value = Str string | IntVal int | FloatNaN | NoneVal

type_synonym bytes = "8 word list"

section \<open>Dictionaries and counters (utilities.py, update_dictionary)\<close>

text \<open>
  A Python dict with integer values is an association list in insertion order with
  distinct keys. \<open>dict_add k v d\<close> is the body of the loop of \<open>update_dictionary\<close>:
  \<open>d[k] += v\<close> when the key is present, \<open>d[k] = v\<close> otherwise.
\<close>

fun dict_add :: "'k \<Rightarrow> nat \<Rightarrow> ('k \<times> nat) list \<Rightarrow> ('k \<times> nat) list" where
  "dict_add k v [] = [(k, v)]"
| "dict_add k v ((k', n) # rest) =
     (if k = k' then (k', n + v) # rest else (k', n) # dict_add k v rest)"

definition update_dictionary :: "('k \<times> nat) list \<Rightarrow> ('k \<times> nat) list \<Rightarrow> ('k \<times> nat) list" where
  "update_dictionary ref_dic new_dic = foldl (\<lambda>d (k, v). dict_add k v d) ref_dic new_dic"

text \<open>\<open>collections.Counter(ids)\<close>: one count per element, keys in first-seen order.\<close>

fun count_element :: "'k \<Rightarrow> ('k \<times> nat) list \<Rightarrow> ('k \<times> nat) list" where
  "count_element k [] = [(k, 1)]"
| "count_element k ((k', n) # rest) =
     (if k = k' then (k', n + 1) # rest else (k', n) # count_element k rest)"

definition Counter :: "'k list \<Rightarrow> ('k \<times> nat) list" where
  "Counter ids = foldl (\<lambda>c k. count_element k c) [] ids"

text \<open>
  \<open>Counter.most_common(n)\<close>: the \<open>n\<close> entries with the largest counts, largest first,
  entries with equal counts in first-seen order.
\<close>

definition most_common :: "nat \<Rightarrow> ('k \<times> nat) list \<Rightarrow> ('k \<times> nat) list" where
  "most_common n c = take n (sort_key (\<lambda>(k, v). - int v) c)"

section \<open>Content scan (git_audit.py, analyze_glob_hashes_for_pattern)\<close>

text \<open>
  The column \<open>df["blob_hash"]\<close> is a list of optional hashes (\<open>None\<close> is NaN).
  \<open>dropna\<close> removes the nulls and \<open>unique\<close> keeps the first occurrence of each value,
  in order of appearance.
\<close>

primrec dropna :: "'a option list \<Rightarrow> 'a list" where
  "dropna [] = []"
| "dropna (x # xs) = (case x of None \<Rightarrow> dropna xs | Some v \<Rightarrow> v # dropna xs)"

fun unique :: "'a list \<Rightarrow> 'a list" where
  "unique [] = []"
| "unique (x # xs) = x # unique (filter (\<lambda>y. y \<noteq> x) xs)"

record scan_row =
  sr_blob_hash :: string
  sr_eid_occ :: "nat option"
  sr_unique_occ :: nat
  sr_found_ids :: "(string \<times> nat) list"

text \<open>
  The state of the scan loop: the rows appended so far, the dictionary of all found
  IDs, and the trace of hashes for which \<open>git show\<close> was run (one entry per run).
\<close>

record scan_state =
  rows :: "scan_row list"
  eid_dict :: "(string \<times> nat) list"
  fetched :: "string list"

text \<open>
  One iteration of the loop. \<open>git_show h\<close> is the standard output of \<open>git show h\<close>, or
  \<open>None\<close> when the command exits non-zero (\<open>CalledProcessError\<close>); \<open>decode\<close> is
  \<open>bytes.decode("utf-8")\<close>, \<open>None\<close> for \<open>UnicodeDecodeError\<close>. Both exceptions are
  caught and leave the defaults: \<open>eid_occ\<close> NaN (here \<open>None\<close>), \<open>unique_occ\<close> 0 and
  \<open>found_ids\<close> empty.
\<close>

definition scan_blob ::
  "(string \<Rightarrow> bytes option) \<Rightarrow> (bytes \<Rightarrow> string option) \<Rightarrow> scan_state \<Rightarrow> string \<Rightarrow> scan_state" where
  "scan_blob git_show decode st blob_hash =
     (let st1 = st\<lparr>fetched := fetched st @ [blob_hash]\<rparr>;
          unreadable = \<lparr>sr_blob_hash = blob_hash, sr_eid_occ = None, sr_unique_occ = 0,
                         sr_found_ids = []\<rparr>
      in case git_show blob_hash of
           None \<Rightarrow> st1\<lparr>rows := rows st1 @ [unreadable]\<rparr>
         | Some out \<Rightarrow>
             (case decode out of
                None \<Rightarrow> st1\<lparr>rows := rows st1 @ [unreadable]\<rparr>
              | Some text \<Rightarrow>
                  (let ids = regex_findall text;
                       eid_occ = length ids;
                       unique_count = length (remdups ids)
                   in if eid_occ \<noteq> 0
                      then st1\<lparr>rows := rows st1 @
                                 [\<lparr>sr_blob_hash = blob_hash, sr_eid_occ = Some eid_occ,
                                   sr_unique_occ = unique_count,
                                   sr_found_ids = most_common 5 (Counter ids)\<rparr>],
                               eid_dict := update_dictionary (eid_dict st1) (Counter ids)\<rparr>
                      else st1\<lparr>rows := rows st1 @
                                 [\<lparr>sr_blob_hash = blob_hash, sr_eid_occ = Some eid_occ,
                                   sr_unique_occ = unique_count, sr_found_ids = []\<rparr>]\<rparr>)))"

definition analyze_glob_hashes_for_pattern ::
  "(string \<Rightarrow> bytes option) \<Rightarrow> (bytes \<Rightarrow> string option) \<Rightarrow> string option list \<Rightarrow> scan_state" where
  "analyze_glob_hashes_for_pattern git_show decode blob_hash_column =
     foldl (scan_blob git_show decode)
       \<lparr>rows = [], eid_dict = [], fetched = []\<rparr>
       (unique (dropna blob_hash_column))"

text \<open>The occurrence count a row contributes, an unreadable object contributing 0.\<close>

definition occ_or_zero :: "nat option \<Rightarrow> nat" where
  "occ_or_zero occ = (case occ of None \<Rightarrow> 0 | Some n \<Rightarrow> n)"

text \<open>What the scan reports for one object, as the specification words it.\<close>

definition content_occurrences ::
  "(string \<Rightarrow> bytes option) \<Rightarrow> (bytes \<Rightarrow> string option) \<Rightarrow> string \<Rightarrow> nat option" where
  "content_occurrences git_show decode h =
     (case git_show h of
        None \<Rightarrow> None
      | Some out \<Rightarrow> (case decode out of None \<Rightarrow> None
                     | Some text \<Rightarrow> Some (length (regex_findall text))))"

subsection \<open>A small repository used in the examples\<close>

text \<open>
  The decoder of the examples accepts exactly the buffers of bytes below \<open>0x80\<close>, on
  which UTF-8 is the identity; the one undecodable buffer of the examples holds the
  byte \<open>0xFF\<close>, which no UTF-8 text contains.
\<close>

definition example_decode :: "bytes \<Rightarrow> string option" where
  "example_decode b =
     (if list_all (\<lambda>w. unat w < 128) b then Some (map (\<lambda>w. char_of (unat w)) b) else None)"

definition ascii_bytes :: "string \<Rightarrow> bytes" where
  "ascii_bytes s = map (\<lambda>c. of_nat (of_char c)) s"

definition example_git_show :: "string \<Rightarrow> bytes option" where
  "example_git_show h =
     (if h = ''b1'' then Some (ascii_bytes ''ids 1234567, 2000000 and 1234567'')
      else if h = ''b2'' then Some [0xFF, 0xFE]
      else if h = ''b3'' then Some (ascii_bytes ''no ids here'')
      else None)"

definition example_column :: "string option list" where
  "example_column = [Some ''b1'', None, Some ''b2'', Some ''b1'', Some ''b3'', Some ''b4'']"

section \<open>Python string operations used by the parsers\<close>

definition startswith :: "string \<Rightarrow> string \<Rightarrow> bool" where
  "startswith s p = (take (length p) s = p)"

text \<open>\<open>s.split(sep)\<close> for a one-character separator: never the empty list.\<close>

fun split_on :: "char \<Rightarrow> string \<Rightarrow> string list" where
  "split_on sep [] = [[]]"
| "split_on sep (c # cs) =
     (if c = sep then [] # split_on sep cs
      else (case split_on sep cs of [] \<Rightarrow> [[c]] | w # ws \<Rightarrow> (c # w) # ws))"

text \<open>\<open>s.split(sep, 1)\<close>: split at the first separator only.\<close>

fun split_once :: "char \<Rightarrow> string \<Rightarrow> string list" where
  "split_once sep [] = [[]]"
| "split_once sep (c # cs) =
     (if c = sep then [[], cs]
      else (case split_once sep cs of [] \<Rightarrow> [[c]] | w # ws \<Rightarrow> (c # w) # ws))"

text \<open>
  \<open>str.isspace\<close> on the code points below 256: U+0009 to U+000D, U+001C to U+0020,
  U+0085 and U+00A0.
\<close>

definition py_isspace :: "char \<Rightarrow> bool" where
  "py_isspace c = ((of_char c :: nat) \<in> set [9, 10, 11, 12, 13, 28, 29, 30, 31, 32, 133, 160])"

definition py_strip :: "string \<Rightarrow> string" where
  "py_strip s = rev (dropWhile py_isspace (rev (dropWhile py_isspace s)))"

text \<open>\<open>s.split()\<close>: the maximal runs of non-space characters.\<close>

fun words_from :: "string \<Rightarrow> string \<Rightarrow> string list" where
  "words_from cur [] = (if cur = [] then [] else [cur])"
| "words_from cur (c # cs) =
     (if py_isspace c then (if cur = [] then words_from [] cs else cur # words_from [] cs)
      else words_from (cur @ [c]) cs)"

definition py_split :: "string \<Rightarrow> string list" where
  "py_split s = words_from [] s"

text \<open>\<open>xs[i]\<close> for \<open>i \<ge> 0\<close>: \<open>IndexError\<close> out of range.\<close>

definition py_index :: "'a list \<Rightarrow> nat \<Rightarrow> error + 'a" where
  "py_index xs i = (if i < length xs then Inr (xs ! i) else Inl IndexError)"

text \<open>\<open>str(n)\<close> for an integer.\<close>

function str_nat :: "nat \<Rightarrow> string" where
  "str_nat n =
     (if n < 10 then [char_of (48 + n)] else str_nat (n div 10) @ [char_of (48 + n mod 10)])"
  by pat_completeness auto
termination
  by (relation "measure (\<lambda>n. n)") auto

declare str_nat.simps [simp del]

definition str_int :: "int \<Rightarrow> string" where
  "str_int i = (if i < 0 then CHR ''-'' # str_nat (nat (- i)) else str_nat (nat i))"

text \<open>
  \<open>int(s)\<close> on a string of code points below 256, \<open>None\<close> for \<open>ValueError\<close>. Python
  strips white space on both sides (U+0009 to U+000D, U+0020, and the non-ASCII spaces
  U+0085 and U+00A0), accepts one sign, and then requires decimal digits, where single
  underscores may stand between digits. \<open>max_str_digits\<close> is the interpreter's limit
  on the number of digits (4300 by default since Python 3.11, 0 for no limit).
\<close>

definition int_space :: "char \<Rightarrow> bool" where
  "int_space c = ((of_char c :: nat) \<in> set [9, 10, 11, 12, 13, 32, 133, 160])"

fun digits_from :: "nat \<Rightarrow> nat \<Rightarrow> string \<Rightarrow> (nat \<times> nat) option" where
  "digits_from acc cnt [] = Some (acc, cnt)"
| "digits_from acc cnt (c # cs) =
     (if is_digit c then digits_from (10 * acc + digit_value c) (cnt + 1) cs
      else if c = CHR ''_'' then
        (case cs of
           [] \<Rightarrow> None
         | d # ds \<Rightarrow> if is_digit d then digits_from (10 * acc + digit_value d) (cnt + 1) ds
                     else None)
      else None)"

definition parse_digits :: "nat \<Rightarrow> string \<Rightarrow> nat option" where
  "parse_digits max_str_digits s =
     (case s of
        [] \<Rightarrow> None
      | c # cs \<Rightarrow>
          if is_digit c then
            (case digits_from (digit_value c) 1 cs of
               None \<Rightarrow> None
             | Some (n, cnt) \<Rightarrow>
                 if 0 < max_str_digits \<and> max_str_digits < cnt then None else Some n)
          else None)"

definition py_int :: "nat \<Rightarrow> string \<Rightarrow> int option" where
  "py_int max_str_digits s =
     (let t = rev (dropWhile int_space (rev (dropWhile int_space s)))
      in case t of
           [] \<Rightarrow> None
         | c # cs \<Rightarrow>
             if c = CHR ''+'' then map_option int (parse_digits max_str_digits cs)
             else if c = CHR ''-'' then map_option (\<lambda>n. - int n) (parse_digits max_str_digits cs)
             else map_option int (parse_digits max_str_digits t))"

section \<open>Status codes (utilities.py, contextualise_git_status)\<close>

definition similarity_text :: "string \<Rightarrow> nat \<Rightarrow> string \<Rightarrow> error + string" where
  "similarity_text label max_str_digits status =
     (case py_int max_str_digits (drop 1 status) of
        None \<Rightarrow> Inl ValueError
      | Some n \<Rightarrow> Inr (label @ str_int n @ ''%''))"

definition contextualise_git_status :: "nat \<Rightarrow> py_value \<Rightarrow> error + string" where
  "contextualise_git_status max_str_digits v =
     (case v of
        Str status \<Rightarrow>
          if status = ''A'' then Inr ''added''
          else if status = ''D'' then Inr ''deleted''
          else if status = ''M'' then Inr ''modified''
          else if status = ''T'' then Inr ''type_change''
          else if status = ''U'' then Inr ''unmerged_conflict''
          else if startswith status ''R'' then
            similarity_text ''renamed_similarity_'' max_str_digits status
          else if startswith status ''B'' then
            similarity_text ''broken_pairing_similarity_'' max_str_digits status
          else if startswith status ''C'' then
            similarity_text ''copied_similarity_'' max_str_digits status
          else Inr ''unknown''
      | _ \<Rightarrow> Inr ''unknown'')"




section \<open>The commit log (git_audit.py, parse_full_log_to_dataframe)\<close>

record change_event =
  ce_commit :: "string option"
  ce_status :: string
  ce_filename :: string
  ce_date :: "string option"
  ce_refs :: "string option"
  ce_old_filename :: string

text \<open>
  The variables of the parsing loop. \<open>current_commit\<close>, \<open>current_date\<close> and
  \<open>current_refs\<close> are Python's \<open>None\<close> until the first \<open>COMMIT_START\<close> line.
\<close>

record parse_state =
  current_commit :: "string option"
  current_date :: "string option"
  current_refs :: "string option"
  log_data :: "change_event list"

text \<open>\<open>re.match(r'^[A-Z]', line)\<close>.\<close>

definition starts_upper :: "string \<Rightarrow> bool" where
  "starts_upper line =
     (case line of [] \<Rightarrow> False | c # _ \<Rightarrow> atom_ok (Cls (CHR ''A'') (CHR ''Z'')) c)"

definition parse_line :: "parse_state \<Rightarrow> string \<Rightarrow> error + parse_state" where
  "parse_line st line =
     (if startswith line ''COMMIT_START'' then
        (let parts = split_on (CHR ''|'') line in
         case py_index parts 1 of Inl e \<Rightarrow> Inl e | Inr c \<Rightarrow>
         (case py_index parts 2 of Inl e \<Rightarrow> Inl e | Inr d \<Rightarrow>
         (case py_index parts 3 of Inl e \<Rightarrow> Inl e | Inr r \<Rightarrow>
            Inr (st\<lparr>current_commit := Some c, current_date := Some d,
                     current_refs := Some r\<rparr>))))
      else if \<not> starts_upper line then Inr st
      else
        (let parts = split_on (CHR 0x09) line in
         case py_index parts 0 of Inl e \<Rightarrow> Inl e | Inr status \<Rightarrow>
           if startswith status ''R'' then
             (case py_index parts 1 of Inl e \<Rightarrow> Inl e | Inr old_filename \<Rightarrow>
             (case py_index parts 2 of Inl e \<Rightarrow> Inl e | Inr new_filename \<Rightarrow>
                Inr (st\<lparr>log_data := log_data st @
                  [\<lparr>ce_commit = current_commit st, ce_status = status,
                    ce_filename = new_filename, ce_date = current_date st,
                    ce_refs = current_refs st, ce_old_filename = old_filename\<rparr>]\<rparr>)))
           else
             (case py_index parts 1 of Inl e \<Rightarrow> Inl e | Inr filename \<Rightarrow>
                Inr (st\<lparr>log_data := log_data st @
                  [\<lparr>ce_commit = current_commit st, ce_status = status,
                    ce_filename = filename, ce_date = current_date st,
                    ce_refs = current_refs st, ce_old_filename = []\<rparr>]\<rparr>))))"

fun parse_lines :: "parse_state \<Rightarrow> string list \<Rightarrow> error + parse_state" where
  "parse_lines st [] = Inr st"
| "parse_lines st (line # lines) =
     (case parse_line st line of Inl e \<Rightarrow> Inl e | Inr st' \<Rightarrow> parse_lines st' lines)"

definition parse_full_log_to_dataframe :: "string \<Rightarrow> error + change_event list" where
  "parse_full_log_to_dataframe raw_log_output =
     (case parse_lines
             \<lparr>current_commit = None, current_date = None, current_refs = None, log_data = []\<rparr>
             (split_on (CHR 0x0A) (py_strip raw_log_output)) of
        Inl e \<Rightarrow> Inl e
      | Inr st \<Rightarrow> Inr (log_data st))"

text \<open>
  What the specification asks of a line with two paths (a rename or a copy): the event
  carries the new path as its file name and the old path as \<open>old_filename\<close>.
\<close>

definition two_path_event :: "string \<Rightarrow> string \<Rightarrow> string \<Rightarrow> change_event \<Rightarrow> bool" where
  "two_path_event status old_path new_path e =
     (ce_status e = status \<and> ce_filename e = new_path \<and> ce_old_filename e = old_path)"

section \<open>Tree listings (git_audit.py, get_blob_hashes_for_commits)\<close>

record tree_entry =
  te_commit :: "string option"
  te_blob_hash :: string
  te_filename :: string

record completed_process =
  stdout :: string
  stderr :: string

text \<open>
  The variables of the loop over the commits: the entries collected, the binding of
  \<open>ls_tree_cmd\<close> (\<open>None\<close> while the name is unbound) and the lines printed.
\<close>

record ls_state =
  all_blob_data :: "tree_entry list"
  ls_tree_cmd :: "completed_process option"
  printed :: "string list"

text \<open>\<open>f'{commit}'\<close>.\<close>

definition format_commit :: "string option \<Rightarrow> string" where
  "format_commit commit = (case commit of None \<Rightarrow> ''None'' | Some c \<Rightarrow> c)"

text \<open>
  One record of \<open>git ls-tree -r -z\<close>. The tuple assignment
  \<open>header, filename = part.split('\t', 1)\<close> raises \<open>ValueError\<close> when the record has
  no tab.
\<close>

definition parse_tree_part :: "string option \<Rightarrow> string \<Rightarrow> error + tree_entry list" where
  "parse_tree_part commit part =
     (case split_once (CHR 0x09) part of
        [header, filename] \<Rightarrow>
          (let header_parts = py_split header in
           if length header_parts = 3 \<and> header_parts ! 1 = ''blob''
           then Inr [\<lparr>te_commit = commit, te_blob_hash = header_parts ! 2,
                       te_filename = filename\<rparr>]
           else Inr [])
      | _ \<Rightarrow> Inl ValueError)"

fun parse_tree_parts :: "string option \<Rightarrow> string list \<Rightarrow> error + tree_entry list" where
  "parse_tree_parts commit [] = Inr []"
| "parse_tree_parts commit (part # parts) =
     (case parse_tree_part commit part of
        Inl e \<Rightarrow> Inl e
      | Inr es \<Rightarrow> (case parse_tree_parts commit parts of
                     Inl e \<Rightarrow> Inl e
                   | Inr es' \<Rightarrow> Inr (es @ es')))"

text \<open>
  One iteration. \<open>ls_tree c\<close> is the completed \<open>git ls-tree\<close> process for commit \<open>c\<close>,
  or \<open>None\<close> when it exits non-zero and \<open>subprocess.run(..., check=True)\<close> raises
  \<open>CalledProcessError\<close>. The handler prints \<open>ls_tree_cmd.stderr\<close>: the name is bound
  only by an earlier successful run, and reading it unbound raises
  \<open>UnboundLocalError\<close>, which nothing catches.
\<close>

definition ls_tree_step ::
  "(string \<Rightarrow> completed_process option) \<Rightarrow> ls_state \<Rightarrow> string option \<Rightarrow> error + ls_state" where
  "ls_tree_step ls_tree st commit =
     (case ls_tree (format_commit commit) of
        Some cp \<Rightarrow>
          (case parse_tree_parts commit (butlast (split_on (CHR 0x00) (stdout cp))) of
             Inl e \<Rightarrow> Inl e
           | Inr es \<Rightarrow> Inr (st\<lparr>ls_tree_cmd := Some cp,
                                all_blob_data := all_blob_data st @ es\<rparr>))
      | None \<Rightarrow>
          (case ls_tree_cmd st of
             None \<Rightarrow> Inl UnboundLocalError
           | Some prev \<Rightarrow> Inr (st\<lparr>printed := printed st @ [stderr prev]\<rparr>)))"

fun ls_tree_loop ::
  "(string \<Rightarrow> completed_process option) \<Rightarrow> ls_state \<Rightarrow> string option list \<Rightarrow> error + ls_state" where
  "ls_tree_loop ls_tree st [] = Inr st"
| "ls_tree_loop ls_tree st (commit # commits) =
     (case ls_tree_step ls_tree st commit of
        Inl e \<Rightarrow> Inl e
      | Inr st' \<Rightarrow> ls_tree_loop ls_tree st' commits)"

definition get_blob_hashes_for_commits ::
  "(string \<Rightarrow> completed_process option) \<Rightarrow> string option list \<Rightarrow> error + tree_entry list" where
  "get_blob_hashes_for_commits ls_tree commits =
     (case ls_tree_loop ls_tree \<lparr>all_blob_data = [], ls_tree_cmd = None, printed = []\<rparr>
             (unique commits) of
        Inl e \<Rightarrow> Inl e
      | Inr st \<Rightarrow> Inr (all_blob_data st))"

text \<open>
  What the specification asks of the tree resolver: the entries of every commit whose
  listing succeeds, the commits whose listing fails being left out.
\<close>

definition entries_of_listed_commits ::
  "(string \<Rightarrow> completed_process option) \<Rightarrow> string option list \<Rightarrow> error + tree_entry list" where
  "entries_of_listed_commits ls_tree commits =
     get_blob_hashes_for_commits ls_tree
       (filter (\<lambda>c. ls_tree (format_commit c) \<noteq> None) commits)"

section \<open>Joining and deriving columns (git_audit.py, audit_repository)\<close>

text \<open>
  \<open>pd.merge(left, right, on=key, how='left')\<close>: every left row, in order, paired with
  each right row of the same key, or with nulls when no right row has its key.
\<close>

definition left_join ::
  "('l \<Rightarrow> 'k) \<Rightarrow> ('r \<Rightarrow> 'k) \<Rightarrow> 'l list \<Rightarrow> 'r list \<Rightarrow> ('l \<times> 'r option) list" where
  "left_join lkey rkey left right =
     concat (map (\<lambda>l. if filter (\<lambda>r. rkey r = lkey l) right = [] then [(l, None)]
                       else map (\<lambda>r. (l, Some r)) (filter (\<lambda>r. rkey r = lkey l) right))
                 left)"

text \<open>
  The right table of two of the merges is \<open>pd.DataFrame(records)\<close> for a list of
  records. For the empty list that frame has no columns, and naming the key column
  in \<open>pd.merge\<close> raises \<open>KeyError\<close>.
\<close>

definition merge_records ::
  "('l \<Rightarrow> 'k) \<Rightarrow> ('r \<Rightarrow> 'k) \<Rightarrow> 'l list \<Rightarrow> 'r list \<Rightarrow> error + ('l \<times> 'r option) list" where
  "merge_records lkey rkey left records =
     (if records = [] then Inl KeyError else Inr (left_join lkey rkey left records))"

text \<open>
  A row of the final table. The constant columns (repository name, owner, links,
  the two blank review columns), \<open>size_MB\<close> (a floating-point rounding of
  \<open>size_bytes\<close>) and the reformatting of the date are left out.
\<close>

record audit_row =
  ar_commit :: "string option"
  ar_date :: "string option"
  ar_status :: string
  ar_filename :: string
  ar_file_ext :: string
  ar_blob_hash :: "string option"
  ar_size_bytes :: "nat option"
  ar_eid_occ :: "nat option"
  ar_filename_occ :: nat
  ar_total_occ :: int
  ar_unique_occ :: "nat option"
  ar_found_ids :: "(string \<times> nat) list option"
  ar_refs :: "string option"
  ar_old_filename :: string

type_synonym joined_row =
  "((change_event \<times> tree_entry option) \<times> (string \<times> nat) option) \<times> scan_row option"

definition row_blob_hash :: "(change_event \<times> tree_entry option) \<Rightarrow> string option" where
  "row_blob_hash m = map_option te_blob_hash (snd m)"

text \<open>
  \<open>analyse_file_names\<close>: the file-name flag is \<open>1 if bool(re.search(pattern,
  filename)) else 0\<close>, the extension \<open>mimetypes.guess_type(filename)[0] or 'unknown'\<close>
  (\<open>guess_type\<close> is the first component of the library's answer).
\<close>

definition filename_occ :: "string \<Rightarrow> nat" where
  "filename_occ filename = (if regex_search filename then 1 else 0)"

definition file_ext :: "(string \<Rightarrow> string option) \<Rightarrow> string \<Rightarrow> string" where
  "file_ext guess_type filename =
     (case guess_type filename of
        None \<Rightarrow> ''unknown''
      | Some t \<Rightarrow> if t = [] then ''unknown'' else t)"

text \<open>
  \<open>total_occ\<close> is \<open>to_numeric(eid_occ).fillna(0).astype(int) +
  to_numeric(filename_occ).fillna(0).astype(int)\<close>.
\<close>

definition make_row :: "(string \<Rightarrow> string option) \<Rightarrow> joined_row \<Rightarrow> string \<Rightarrow> audit_row" where
  "make_row guess_type j status_text =
     (let e = fst (fst (fst j)); t = snd (fst (fst j)); s = snd (fst j); r = snd j;
          eid = (case r of None \<Rightarrow> None | Some x \<Rightarrow> sr_eid_occ x)
      in \<lparr>ar_commit = ce_commit e,
          ar_date = ce_date e,
          ar_status = status_text,
          ar_filename = ce_filename e,
          ar_file_ext = file_ext guess_type (ce_filename e),
          ar_blob_hash = map_option te_blob_hash t,
          ar_size_bytes = map_option snd s,
          ar_eid_occ = eid,
          ar_filename_occ = filename_occ (ce_filename e),
          ar_total_occ = int (occ_or_zero eid) + int (filename_occ (ce_filename e)),
          ar_unique_occ = map_option sr_unique_occ r,
          ar_found_ids = map_option sr_found_ids r,
          ar_refs = ce_refs e,
          ar_old_filename = ce_old_filename e\<rparr>)"

text \<open>
  \<open>final_df['status'].apply(contextualise_git_status)\<close> and the derived columns, row
  by row; a \<open>ValueError\<close> of the status function ends the run.
\<close>

fun make_rows ::
  "(string \<Rightarrow> string option) \<Rightarrow> nat \<Rightarrow> joined_row list \<Rightarrow> error + audit_row list" where
  "make_rows guess_type lim [] = Inr []"
| "make_rows guess_type lim (j # js) =
     (case contextualise_git_status lim (Str (ce_status (fst (fst (fst j))))) of
        Inl e \<Rightarrow> Inl e
      | Inr status_text \<Rightarrow>
          (case make_rows guess_type lim js of
             Inl e \<Rightarrow> Inl e
           | Inr out \<Rightarrow> Inr (make_row guess_type j status_text # out)))"

datatype audit_outcome =
  Placeholder
| Report "audit_row list" "(string \<times> nat) list"

text \<open>
  The audit from the three tables up to the sort: the placeholder for an empty log,
  else the joined and derived rows in the order of the log, with the ID frequencies.
\<close>

definition audit_rows ::
  "(string \<Rightarrow> bytes option) \<Rightarrow> (bytes \<Rightarrow> string option) \<Rightarrow> (string \<Rightarrow> string option) \<Rightarrow> nat \<Rightarrow>
   change_event list \<Rightarrow> tree_entry list \<Rightarrow> (string \<times> nat) list \<Rightarrow> error + audit_outcome" where
  "audit_rows git_show decode guess_type lim full_log_df blob_hashes_df blob_sizes_df =
     (if full_log_df = [] then Inr Placeholder
      else
        case merge_records (\<lambda>e. (ce_commit e, ce_filename e))
               (\<lambda>t. (te_commit t, te_filename t)) full_log_df blob_hashes_df of
          Inl e \<Rightarrow> Inl e
        | Inr merged_df \<Rightarrow>
            (let final_df = left_join row_blob_hash (\<lambda>s. Some (fst s)) merged_df blob_sizes_df;
                 scan = analyze_glob_hashes_for_pattern git_show decode
                          (map (\<lambda>f. row_blob_hash (fst f)) final_df)
             in case merge_records (\<lambda>f. row_blob_hash (fst f)) (\<lambda>r. Some (sr_blob_hash r))
                       final_df (rows scan) of
                  Inl e \<Rightarrow> Inl e
                | Inr joined \<Rightarrow>
                    (case make_rows guess_type lim joined of
                       Inl e \<Rightarrow> Inl e
                     | Inr out \<Rightarrow> Inr (Report out (eid_dict scan)))))"

text \<open>The three joins of \<open>audit_rows\<close> on their own, without the error cases.\<close>

definition joined_of ::
  "(string \<Rightarrow> bytes option) \<Rightarrow> (bytes \<Rightarrow> string option) \<Rightarrow> change_event list \<Rightarrow> tree_entry list \<Rightarrow>
   (string \<times> nat) list \<Rightarrow> joined_row list" where
  "joined_of gs dec full_log_df blob_hashes_df blob_sizes_df =
     (let merged_df = left_join (\<lambda>e. (ce_commit e, ce_filename e))
                        (\<lambda>t. (te_commit t, te_filename t)) full_log_df blob_hashes_df;
          final_df = left_join row_blob_hash (\<lambda>s. Some (fst s)) merged_df blob_sizes_df;
          scan = analyze_glob_hashes_for_pattern gs dec (map (\<lambda>f. row_blob_hash (fst f)) final_df)
      in left_join (\<lambda>f. row_blob_hash (fst f)) (\<lambda>r. Some (sr_blob_hash r)) final_df (rows scan))"

text \<open>
  \<open>final_df.sort_values(by='total_occ', ascending=False)\<close> with the default
  \<open>kind='quicksort'\<close>, which pandas documents as not stable: the result is a
  rearrangement of the rows in non-increasing order of \<open>total_occ\<close>, and the library
  promises nothing about the order of rows with equal keys. The sort is therefore a
  relation between the table and a possible result.
\<close>

definition sort_values_desc :: "audit_row list \<Rightarrow> audit_row list \<Rightarrow> bool" where
  "sort_values_desc df out =
     (mset out = mset df \<and> sorted_wrt (\<lambda>a b. ar_total_occ b \<le> ar_total_occ a) out)"

definition final_table ::
  "(string \<Rightarrow> bytes option) \<Rightarrow> (bytes \<Rightarrow> string option) \<Rightarrow> (string \<Rightarrow> string option) \<Rightarrow> nat \<Rightarrow>
   change_event list \<Rightarrow> tree_entry list \<Rightarrow> (string \<times> nat) list \<Rightarrow> audit_row list \<Rightarrow> bool" where
  "final_table git_show decode guess_type lim full_log_df blob_hashes_df blob_sizes_df table =
     (case audit_rows git_show decode guess_type lim full_log_df blob_hashes_df blob_sizes_df of
        Inr (Report out eids) \<Rightarrow> sort_values_desc out table
      | _ \<Rightarrow> False)"


text \<open>
  The whole run from the raw log: parse it, list the trees of its commits, join and
  derive.
\<close>

definition audit_repository ::
  "(string \<Rightarrow> completed_process option) \<Rightarrow> (string \<Rightarrow> bytes option) \<Rightarrow> (bytes \<Rightarrow> string option) \<Rightarrow>
   (string \<Rightarrow> string option) \<Rightarrow> nat \<Rightarrow> string \<Rightarrow> (string \<times> nat) list \<Rightarrow> error + audit_outcome" where
  "audit_repository ls_tree git_show decode guess_type lim raw_log blob_sizes_df =
     (case parse_full_log_to_dataframe raw_log of
        Inl e \<Rightarrow> Inl e
      | Inr full_log_df \<Rightarrow>
          if full_log_df = [] then Inr Placeholder
          else
            (case get_blob_hashes_for_commits ls_tree (map ce_commit full_log_df) of
               Inl e \<Rightarrow> Inl e
             | Inr blob_hashes_df \<Rightarrow>
                 audit_rows git_show decode guess_type lim full_log_df blob_hashes_df
                   blob_sizes_df))"

subsection \<open>The example repository, continued\<close>

definition example_guess_type :: "string \<Rightarrow> string option" where
  "example_guess_type filename =
     (if filename = ''notes.txt'' then Some ''text/plain''
      else if filename = ''old/1234567.csv'' then Some ''text/csv''
      else None)"

definition example_event :: "string \<Rightarrow> string \<Rightarrow> string \<Rightarrow> change_event" where
  "example_event c st f =
     \<lparr>ce_commit = Some c, ce_status = st, ce_filename = f, ce_date = Some ''2024-01-02'',
      ce_refs = Some [], ce_old_filename = []\<rparr>"

definition example_log :: "change_event list" where
  "example_log =
     [example_event ''c2'' ''D'' ''old/1234567.csv'',
      example_event ''c1'' ''A'' ''old/1234567.csv'',
      example_event ''c1'' ''A'' ''bin.dat'',
      example_event ''c1'' ''A'' ''notes.txt'']"

definition example_trees :: "tree_entry list" where
  "example_trees =
     [\<lparr>te_commit = Some ''c1'', te_blob_hash = ''b1'', te_filename = ''old/1234567.csv''\<rparr>,
      \<lparr>te_commit = Some ''c1'', te_blob_hash = ''b2'', te_filename = ''bin.dat''\<rparr>,
      \<lparr>te_commit = Some ''c1'', te_blob_hash = ''b3'', te_filename = ''notes.txt''\<rparr>]"

definition example_sizes :: "(string \<times> nat) list" where
  "example_sizes = [(''b1'', 32), (''b2'', 2), (''b3'', 11)]"

definition example_row ::
  "string \<Rightarrow> string \<Rightarrow> string \<Rightarrow> string \<Rightarrow> string option \<Rightarrow> nat option \<Rightarrow> nat option \<Rightarrow> nat \<Rightarrow> int \<Rightarrow>
   nat option \<Rightarrow> (string \<times> nat) list option \<Rightarrow> audit_row" where
  "example_row c st f ext h sz eid focc tot uq ids =
     \<lparr>ar_commit = Some c, ar_date = Some ''2024-01-02'', ar_status = st, ar_filename = f,
      ar_file_ext = ext, ar_blob_hash = h, ar_size_bytes = sz, ar_eid_occ = eid,
      ar_filename_occ = focc, ar_total_occ = tot, ar_unique_occ = uq, ar_found_ids = ids,
      ar_refs = Some [], ar_old_filename = []\<rparr>"

definition row_deleted :: audit_row where
  "row_deleted = example_row ''c2'' ''deleted'' ''old/1234567.csv'' ''text/csv''
     None None None 1 1 None None"

definition row_csv :: audit_row where
  "row_csv = example_row ''c1'' ''added'' ''old/1234567.csv'' ''text/csv''
     (Some ''b1'') (Some 32) (Some 3) 1 4 (Some 2)
     (Some [(''1234567'', 2), (''2000000'', 1)])"

definition row_bin :: audit_row where
  "row_bin = example_row ''c1'' ''added'' ''bin.dat'' ''unknown''
     (Some ''b2'') (Some 2) None 0 0 (Some 0) (Some [])"

definition row_notes :: audit_row where
  "row_notes = example_row ''c1'' ''added'' ''notes.txt'' ''text/plain''
     (Some ''b3'') (Some 11) (Some 0) 0 0 (Some 0) (Some [])"

text \<open>
  A history in which no logged path has a tree entry: \<open>git log --name-status\<close> quotes
  a path with a non-ASCII byte (here the file U+00E9 \<open>.txt\<close>, logged as
  \<open>"\303\251.txt"\<close>), \<open>git ls-tree -z\<close> does not. Commit \<open>c1\<close> adds the file and
  commit \<open>c2\<close> deletes it.
\<close>

definition quoted_path :: string where
  "quoted_path = [CHR 0x22, CHR 0x5C] @ ''303'' @ [CHR 0x5C] @ ''251.txt'' @ [CHR 0x22]"

definition unmatched_log :: "change_event list" where
  "unmatched_log =
     [example_event ''c2'' ''D'' quoted_path, example_event ''c1'' ''A'' quoted_path]"

definition unmatched_trees :: "tree_entry list" where
  "unmatched_trees =
     [\<lparr>te_commit = Some ''c1'', te_blob_hash = ''b3'', te_filename = CHR 0xE9 # ''.txt''\<rparr>]"

text \<open>
  A log with one copy line and one rename line, and a tree lister that fails for
  commit \<open>c2\<close> and lists one blob and one submodule for commit \<open>c1\<close>.
\<close>

definition example_copy_log :: string where
  "example_copy_log =
     ''COMMIT_START|c2|2024-01-02T10:00:00+00:00| (HEAD -> main)'' @ [CHR 0x0A, CHR 0x0A] @
     ''C100'' @ [CHR 0x09] @ ''old.txt'' @ [CHR 0x09] @ ''new.txt'' @ [CHR 0x0A] @
     ''R090'' @ [CHR 0x09] @ ''a.txt'' @ [CHR 0x09] @ ''b.txt'' @ [CHR 0x0A]"

definition logged_event :: "string \<Rightarrow> string \<Rightarrow> string \<Rightarrow> change_event" where
  "logged_event st f old =
     \<lparr>ce_commit = Some ''c2'', ce_status = st, ce_filename = f,
      ce_date = Some ''2024-01-02T10:00:00+00:00'', ce_refs = Some '' (HEAD -> main)'',
      ce_old_filename = old\<rparr>"

definition example_ls_tree :: "string \<Rightarrow> completed_process option" where
  "example_ls_tree c =
     (if c = ''c1''
      then Some \<lparr>stdout = ''100644 blob b1'' @ [CHR 0x09] @ ''a b.txt'' @ [CHR 0x00] @
                          ''160000 commit b9'' @ [CHR 0x09] @ ''sub'' @ [CHR 0x00],
                 stderr = []\<rparr>
      else None)"
section \<open>Properties of the sensitive-ID matcher\<close>

lemma char_eq_iff_code: "(c = d) = ((of_char c :: nat) = of_char d)"
  by (metis char_of_char)

lemma decimal_digit_code: "decimal_digit c = (48 \<le> (of_char c :: nat) \<and> (of_char c :: nat) \<le> 57)"
proof -
  have "decimal_digit c = ((of_char c :: nat) \<in> {48,49,50,51,52,53,54,55,56,57})"
    unfolding decimal_digit_def by (simp add: char_eq_iff_code[of c])
  also have "\<dots> = (48 \<le> (of_char c :: nat) \<and> (of_char c :: nat) \<le> 57)"
    by (simp, arith)
  finally show ?thesis .
qed

lemma atom_digit: "atom_ok digit_cls c = decimal_digit c"
  by (simp add: digit_cls_def decimal_digit_code)

lemma atom_lit_digit:
  "48 \<le> (of_char l :: nat) \<Longrightarrow> (of_char l :: nat) \<le> 57 \<Longrightarrow>
   atom_ok (Lit l) c = (decimal_digit c \<and> digit_value c = of_char l - 48)"
  unfolding atom_ok.simps decimal_digit_code digit_value_def char_eq_iff_code[of c l] by arith

lemma atom_cls_digit:
  "48 \<le> (of_char lo :: nat) \<Longrightarrow> 48 \<le> (of_char hi :: nat) \<Longrightarrow> (of_char hi :: nat) \<le> 57 \<Longrightarrow>
   atom_ok (Cls lo hi) c =
     (decimal_digit c \<and> of_char lo - 48 \<le> digit_value c \<and> digit_value c \<le> of_char hi - 48)"
  unfolding atom_ok.simps decimal_digit_code digit_value_def by arith

lemma atom_lits:
  "atom_ok (Lit (CHR ''0'')) c = (decimal_digit c \<and> digit_value c = 0)"
  "atom_ok (Lit (CHR ''1'')) c = (decimal_digit c \<and> digit_value c = 1)"
  "atom_ok (Lit (CHR ''5'')) c = (decimal_digit c \<and> digit_value c = 5)"
  "atom_ok (Lit (CHR ''6'')) c = (decimal_digit c \<and> digit_value c = 6)"
  by (simp_all add: atom_lit_digit del: atom_ok.simps)

lemma atom_clss:
  "atom_ok (Cls (CHR ''1'') (CHR ''5'')) c =
     (decimal_digit c \<and> 1 \<le> digit_value c \<and> digit_value c \<le> 5)"
  "atom_ok (Cls (CHR ''0'') (CHR ''4'')) c = (decimal_digit c \<and> digit_value c \<le> 4)"
  by (simp_all add: atom_cls_digit del: atom_ok.simps)

lemma replicate_five: "replicate 5 x = [x, x, x, x, x]"
  by (simp add: numeral_eq_Suc)

lemma replicate_six: "replicate 6 x = [x, x, x, x, x, x]"
  by (simp add: numeral_eq_Suc)

lemma alts_unfold:
  "(\<exists>a \<in> set id_alternatives. list_all2 atom_ok a [c0, c1, c2, c3, c4, c5, c6]) \<longleftrightarrow>
     list_all decimal_digit [c0, c1, c2, c3, c4, c5, c6] \<and>
     ((1 \<le> digit_value c0 \<and> digit_value c0 \<le> 5) \<or> (digit_value c0 = 6 \<and> digit_value c1 \<le> 4) \<or>
      (digit_value c0 = 6 \<and> digit_value c1 = 5 \<and> digit_value c2 = 0 \<and> digit_value c3 = 0 \<and>
       digit_value c4 = 0 \<and> digit_value c5 = 0 \<and> digit_value c6 = 0))"
  unfolding id_alternatives_def replicate_five replicate_six
  by (simp add: atom_digit atom_lits atom_clss del: atom_ok.simps) (safe; simp)

lemma is_digit_code: "is_digit c = (48 \<le> (of_char c :: nat) \<and> (of_char c :: nat) \<le> 57)"
  by (simp add: is_digit_def digit_cls_def)

lemma is_digit_decimal_digit: "is_digit c = decimal_digit c"
  by (simp add: is_digit_code decimal_digit_code)

lemma match_seq_Some:
  "match_seq a w = Some v \<longleftrightarrow> length a \<le> length w \<and> v = take (length a) w \<and> list_all2 atom_ok a v"
proof (induction a w arbitrary: v rule: match_seq.induct)
  case (1 w) then show ?case by auto
next
  case (2 a atoms) then show ?case by auto
next
  case (3 a atoms c cs)
  then show ?case by (cases v) auto
qed

lemma seven_cases:
  assumes "length w = 7"
  obtains c0 c1 c2 c3 c4 c5 c6 where "w = [c0, c1, c2, c3, c4, c5, c6]"
proof -
  from assms obtain c0 w1 where "w = c0 # w1" "length w1 = 6" by (cases w) auto
  moreover then obtain c1 w2 where "w1 = c1 # w2" "length w2 = 5" by (cases w1) auto
  moreover then obtain c2 w3 where "w2 = c2 # w3" "length w3 = 4" by (cases w2) auto
  moreover then obtain c3 w4 where "w3 = c3 # w4" "length w4 = 3" by (cases w3) auto
  moreover then obtain c4 w5 where "w4 = c4 # w5" "length w5 = 2" by (cases w4) auto
  moreover then obtain c5 w6 where "w5 = c5 # w6" "length w6 = 1" by (cases w5) auto
  moreover then obtain c6 where "w6 = [c6]" by (cases w6) auto
  ultimately show ?thesis using that by simp
qed

lemma range_arith:
  fixes n0 n1 n2 n3 n4 n5 n6 :: nat
  assumes "n0 \<le> 9" "n1 \<le> 9" "n2 \<le> 9" "n3 \<le> 9" "n4 \<le> 9" "n5 \<le> 9" "n6 \<le> 9"
  shows "(1000000 \<le> 1000000 * n0 + 100000 * n1 + 10000 * n2 + 1000 * n3 + 100 * n4 + 10 * n5 + n6 \<and>
          1000000 * n0 + 100000 * n1 + 10000 * n2 + 1000 * n3 + 100 * n4 + 10 * n5 + n6 \<le> 6500000)
         \<longleftrightarrow> ((1 \<le> n0 \<and> n0 \<le> 5) \<or> (n0 = 6 \<and> n1 \<le> 4) \<or>
              (n0 = 6 \<and> n1 = 5 \<and> n2 = 0 \<and> n3 = 0 \<and> n4 = 0 \<and> n5 = 0 \<and> n6 = 0))"
proof -
  define r where "r = 10000 * n2 + 1000 * n3 + 100 * n4 + 10 * n5 + n6"
  have r_le: "r \<le> 99999" unfolding r_def using assms by linarith
  have r0: "r = 0 \<longleftrightarrow> n2 = 0 \<and> n3 = 0 \<and> n4 = 0 \<and> n5 = 0 \<and> n6 = 0"
    unfolding r_def by simp
  have v: "1000000 * n0 + 100000 * n1 + 10000 * n2 + 1000 * n3 + 100 * n4 + 10 * n5 + n6
           = 1000000 * n0 + 100000 * n1 + r"
    unfolding r_def by simp
  have "(1000000 \<le> 1000000 * n0 + 100000 * n1 + r \<and> 1000000 * n0 + 100000 * n1 + r \<le> 6500000)
        \<longleftrightarrow> ((1 \<le> n0 \<and> n0 \<le> 5) \<or> (n0 = 6 \<and> n1 \<le> 4) \<or> (n0 = 6 \<and> n1 = 5 \<and> r = 0))"
    using r_le assms(1,2) by linarith
  then show ?thesis unfolding v r0 .
qed


lemma decimal_value_seven:
  "decimal_value [c0, c1, c2, c3, c4, c5, c6] =
     1000000 * digit_value c0 + 100000 * digit_value c1 + 10000 * digit_value c2 +
     1000 * digit_value c3 + 100 * digit_value c4 + 10 * digit_value c5 + digit_value c6"
  by (simp add: decimal_value_def)

lemma digit_iff_value:
  "decimal_digit c \<longleftrightarrow> 48 \<le> (of_char c :: nat) \<and> digit_value c \<le> 9"
  unfolding decimal_digit_code digit_value_def by arith

lemma try_alts_uniform:
  assumes "\<forall>a \<in> set alts. length a = n"
  shows "try_alts alts rest =
           (if (\<exists>a \<in> set alts. list_all2 atom_ok a (take n rest)) \<and> n \<le> length rest \<and>
               lookahead_not_digit (drop n rest)
            then Some (take n rest) else None)"
  using assms
proof (induction alts)
  case Nil
  then show ?case by simp
next
  case (Cons a alts)
  have len: "length a = n" using Cons.prems by simp
  have ih: "try_alts alts rest =
           (if (\<exists>a \<in> set alts. list_all2 atom_ok a (take n rest)) \<and> n \<le> length rest \<and>
               lookahead_not_digit (drop n rest)
            then Some (take n rest) else None)"
    using Cons by simp
  show ?case
  proof (cases "match_seq a rest")
    case None
    then have "\<not> (n \<le> length rest \<and> list_all2 atom_ok a (take n rest))"
      using match_seq_Some[of a rest "take n rest"] len by auto
    then show ?thesis using None ih by auto
  next
    case (Some w)
    then have w: "n \<le> length rest" "w = take n rest" "list_all2 atom_ok a (take n rest)"
      using match_seq_Some[of a rest w] len by auto
    then have lw: "length w = n" by simp
    show ?thesis using Some ih w lw by auto
  qed
qed

lemma seven_digit_id_iff_alts:
  assumes "length w = 7"
  shows "(\<exists>a \<in> set id_alternatives. list_all2 atom_ok a w) \<longleftrightarrow> seven_digit_id w"
proof -
  from assms obtain c0 c1 c2 c3 c4 c5 c6 where w: "w = [c0, c1, c2, c3, c4, c5, c6]"
    by (rule seven_cases)
  show ?thesis
  proof (cases "list_all decimal_digit w")
    case False
    then show ?thesis unfolding w alts_unfold seven_digit_id_def by auto
  next
    case True
    then have b: "digit_value c0 \<le> 9" "digit_value c1 \<le> 9" "digit_value c2 \<le> 9"
      "digit_value c3 \<le> 9" "digit_value c4 \<le> 9" "digit_value c5 \<le> 9" "digit_value c6 \<le> 9"
      unfolding w by (simp_all add: digit_iff_value)
    show ?thesis
      using True range_arith[OF b]
      unfolding w alts_unfold seven_digit_id_def decimal_value_seven by simp
  qed
qed

lemma id_alternatives_len: "\<forall>a \<in> set id_alternatives. length a = 7"
  by (simp add: id_alternatives_def)

lemma try_alts_id:
  "try_alts id_alternatives rest =
     (if 7 \<le> length rest \<and> seven_digit_id (take 7 rest) \<and> lookahead_not_digit (drop 7 rest)
      then Some (take 7 rest) else None)"
proof (cases "7 \<le> length rest")
  case True
  then have "length (take 7 rest) = 7" by simp
  from seven_digit_id_iff_alts[OF this] show ?thesis
    unfolding try_alts_uniform[OF id_alternatives_len] by auto
next
  case False
  then show ?thesis unfolding try_alts_uniform[OF id_alternatives_len] by auto
qed


lemma last_take_nth:
  assumes "0 < i" "i \<le> length s"
  shows "last (take i s) = s ! (i - 1)"
proof -
  have "take i s \<noteq> []" using assms by auto
  then have "last (take i s) = take i s ! (length (take i s) - 1)" by (rule last_conv_nth)
  also have "\<dots> = s ! (i - 1)" using assms by simp
  finally show ?thesis .
qed

lemma ends_with_one:
  "i \<le> length s \<Longrightarrow> ends_with (take i s) [a] \<longleftrightarrow> 0 < i \<and> s ! (i - 1) = a"
proof (cases "0 < i")
  case False then show ?thesis by (simp add: ends_with_def)
next
  case True
  assume le: "i \<le> length s"
  have "drop (i - 1) (take i s) = [s ! (i - 1)]"
    using True le by (simp add: drop_take take_Suc_conv_app_nth[symmetric] list_eq_iff_nth_eq)
  then show ?thesis using True le by (simp add: ends_with_def)
qed

lemma ends_with_two:
  "i \<le> length s \<Longrightarrow> ends_with (take i s) [a, b] \<longleftrightarrow> 2 \<le> i \<and> s ! (i - 2) = a \<and> s ! (i - 1) = b"
proof (cases "2 \<le> i")
  case False then show ?thesis by (simp add: ends_with_def)
next
  case True
  assume le: "i \<le> length s"
  obtain k where k: "i = Suc (Suc k)" using True by (metis Suc_le_D numeral_2_eq_2 Suc_le_mono)
  have "drop k s = s ! k # drop (Suc k) s" using le k by (simp add: Cons_nth_drop_Suc)
  moreover have "drop (Suc k) s = s ! Suc k # drop (Suc (Suc k)) s"
    using le k by (simp add: Cons_nth_drop_Suc)
  ultimately have "take 2 (drop k s) = [s ! k, s ! Suc k]" by (simp add: numeral_2_eq_2)
  moreover have "drop k (take (Suc (Suc k)) s) = take 2 (drop k s)"
    by (simp add: drop_take numeral_2_eq_2)
  ultimately have D: "drop k (take (Suc (Suc k)) s) = [s ! k, s ! Suc k]"
    by simp
  have L: "min (length s) (Suc (Suc k)) = Suc (Suc k)" using le k by simp
  have "ends_with (take (Suc (Suc k)) s) [a, b] \<longleftrightarrow> s ! k = a \<and> s ! Suc k = b"
    by (simp add: ends_with_def D L)
  moreover have "i - 2 = k" "i - 1 = Suc k" using k by simp_all
  ultimately show ?thesis using True k by simp
qed

lemma lookbehind_ok_iff:
  assumes "i \<le> length s"
  shows "lookbehind_ok (take i s) \<longleftrightarrow>
     \<not> (0 < i \<and> decimal_digit (s ! (i - 1))) \<and>
     \<not> (0 < i \<and> s ! (i - 1) = CHR ''.'') \<and>
     \<not> (2 \<le> i \<and> rs_letters (s ! (i - 2)) (s ! (i - 1)))"
proof -
  have e: "take i s \<noteq> [] \<longleftrightarrow> 0 < i" using assms by auto
  show ?thesis
    unfolding lookbehind_ok_def e ends_with_one[OF assms] ends_with_two[OF assms] rs_letters_def
      is_digit_decimal_digit
    using last_take_nth[of i s] assms by auto
qed

lemma lookahead_iff:
  "lookahead_not_digit (drop j s) \<longleftrightarrow> \<not> (j < length s \<and> decimal_digit (s ! j))"
proof (cases "j < length s")
  case True
  then have "drop j s = s ! j # drop (Suc j) s" by (simp add: Cons_nth_drop_Suc)
  then show ?thesis using True by (simp add: lookahead_not_digit_def is_digit_decimal_digit)
next
  case False
  then show ?thesis by (simp add: lookahead_not_digit_def)
qed

lemma match_at_iff:
  "match_at s i = (if sensitive_id_at s i then Some (take 7 (drop i s)) else None)"
proof (cases "i \<le> length s")
  case True
  have l: "(7 \<le> length (drop i s)) = (i + 7 \<le> length s)" by auto
  have d: "drop 7 (drop i s) = drop (i + 7) s" by (simp add: add.commute)
  show ?thesis
    unfolding match_at_def try_alts_id lookbehind_ok_iff[OF True] sensitive_id_at_def l d
      lookahead_iff
    by auto
next
  case False
  then have "\<not> sensitive_id_at s i" by (simp add: sensitive_id_at_def)
  moreover have "try_alts id_alternatives (drop i s) = None"
    using False by (simp add: try_alts_id)
  ultimately show ?thesis by (simp add: match_at_def)
qed

lemma sensitive_id_length: "sensitive_id_at s i \<Longrightarrow> i + 7 \<le> length s"
  by (simp add: sensitive_id_at_def)

lemma sensitive_id_digits:
  assumes "sensitive_id_at s i" "i \<le> k" "k < i + 7"
  shows "decimal_digit (s ! k)"
proof -
  have len: "i + 7 \<le> length s" and all: "list_all decimal_digit (take 7 (drop i s))"
    using assms(1) by (simp_all add: sensitive_id_at_def seven_digit_id_def)
  have "k - i < length (take 7 (drop i s))" using assms len by simp
  then have "decimal_digit (take 7 (drop i s) ! (k - i))"
    using all by (simp add: list_all_length)
  moreover have "take 7 (drop i s) ! (k - i) = s ! k"
    using assms len by simp
  ultimately show ?thesis by simp
qed

lemma sensitive_id_skip:
  assumes "sensitive_id_at s i" "i < j" "j < i + 7"
  shows "\<not> sensitive_id_at s j"
proof -
  have "decimal_digit (s ! (j - 1))"
    using sensitive_id_digits[OF assms(1), of "j - 1"] assms(2,3) by simp
  then show ?thesis using assms(2) by (simp add: sensitive_id_at_def)
qed

lemma filter_skip:
  assumes "sensitive_id_at s i"
  shows "filter (sensitive_id_at s) [i..<length s] =
           i # filter (sensitive_id_at s) [i + 7..<length s]"
proof -
  have len: "i + 7 \<le> length s" using assms by (rule sensitive_id_length)
  have "[i..<length s] = [i..<i + 7] @ [i + 7..<length s]"
    using len upt_add_eq_append[of i "i + 7" "length s - (i + 7)"] by simp
  moreover have "[i..<i + 7] = i # [Suc i..<i + 7]" by (simp add: upt_conv_Cons)
  moreover have "filter (sensitive_id_at s) [Suc i..<i + 7] = []"
    using sensitive_id_skip[OF assms] by (auto simp: filter_empty_conv)
  ultimately show ?thesis using assms by simp
qed

lemma findall_from_eq:
  "findall_from s i =
     map (\<lambda>j. take 7 (drop j s)) (filter (sensitive_id_at s) [i..<length s])"
proof (induction s i rule: findall_from.induct)
  case (1 s i)
  show ?case
  proof (cases "length s < i")
    case True
    then show ?thesis by (subst findall_from.simps) simp
  next
    case False
    show ?thesis
    proof (cases "sensitive_id_at s i")
      case True
      then have m: "match_at s i = Some (take 7 (drop i s))" by (simp add: match_at_iff)
      have len: "i + 7 \<le> length s" using True by (rule sensitive_id_length)
      then have l7: "length (take 7 (drop i s)) = 7" by simp
      have ih: "findall_from s (i + 7) =
          map (\<lambda>j. take 7 (drop j s)) (filter (sensitive_id_at s) [i + 7..<length s])"
        using "1.IH"(2)[OF False m] l7 by simp
      have "findall_from s i = take 7 (drop i s) # findall_from s (i + 7)"
        using False m l7 by (subst findall_from.simps) simp
      then show ?thesis unfolding ih filter_skip[OF True] by simp
    next
      case nm: False
      then have m: "match_at s i = None" by (simp add: match_at_iff)
      have ih: "findall_from s (i + 1) =
          map (\<lambda>j. take 7 (drop j s)) (filter (sensitive_id_at s) [i + 1..<length s])"
        using "1.IH"(1)[OF False m] .
      have step: "findall_from s i = findall_from s (i + 1)"
        using False m by (subst findall_from.simps) simp
      show ?thesis
      proof (cases "i < length s")
        case True
        then have "[i..<length s] = i # [i + 1..<length s]" by (simp add: upt_conv_Cons)
        then show ?thesis unfolding step ih using nm by simp
      next
        case False
        then show ?thesis unfolding step ih by simp
      qed
    qed
  qed
qed

lemma search_from_findall: "search_from s i = (findall_from s i \<noteq> [])"
proof (induction s i rule: search_from.induct)
  case (1 s i)
  show ?case
  proof (cases "length s < i")
    case True
    then show ?thesis by (subst search_from.simps, subst findall_from.simps) simp
  next
    case False
    show ?thesis
    proof (cases "match_at s i")
      case None
      then show ?thesis using False "1.IH"[OF False None]
        by (subst search_from.simps, subst findall_from.simps) simp
    next
      case (Some w)
      then show ?thesis using False
        by (subst search_from.simps, subst findall_from.simps) simp
    qed
  qed
qed


lemma regex_search_iff: "regex_search s \<longleftrightarrow> (\<exists>i. sensitive_id_at s i)"
proof -
  have "regex_search s \<longleftrightarrow> (\<exists>i < length s. sensitive_id_at s i)"
    by (auto simp add: regex_search_def search_from_findall findall_from_eq filter_empty_conv)
  moreover have "\<And>i. sensitive_id_at s i \<Longrightarrow> i < length s"
    using sensitive_id_length by fastforce
  ultimately show ?thesis by blast
qed






section \<open>Properties of the content scan\<close>

lemma set_dropna: "set (dropna xs) = {h. Some h \<in> set xs}"
  by (induction xs) (auto split: option.splits)

lemma set_unique: "set (unique xs) = set xs"
  by (induction xs rule: unique.induct) auto

lemma distinct_unique: "distinct (unique xs)"
  by (induction xs rule: unique.induct) (auto simp: set_unique)


lemma sum_dict_add: "sum_list (map snd (dict_add k v d)) = sum_list (map snd d) + v"
  by (induction k v d rule: dict_add.induct) auto

lemma sum_update_dictionary:
  "sum_list (map snd (update_dictionary d new)) = sum_list (map snd d) + sum_list (map snd new)"
  unfolding update_dictionary_def
proof (induction new arbitrary: d)
  case Nil
  then show ?case by simp
next
  case (Cons kv new)
  obtain k v where kv: "kv = (k, v)" by (cases kv)
  show ?case by (simp add: kv Cons.IH sum_dict_add)
qed

lemma sum_count_element: "sum_list (map snd (count_element k c)) = sum_list (map snd c) + 1"
  by (induction k c rule: count_element.induct) auto

lemma sum_Counter_aux:
  "sum_list (map snd (foldl (\<lambda>c k. count_element k c) c0 ids)) = sum_list (map snd c0) + length ids"
  by (induction ids arbitrary: c0) (simp_all add: sum_count_element)

lemma sum_Counter: "sum_list (map snd (Counter ids)) = length ids"
  by (simp add: Counter_def sum_Counter_aux)


lemma scan_blob_rows:
  "\<exists>r. rows (scan_blob gs dec st h) = rows st @ [r] \<and> sr_blob_hash r = h \<and>
       sr_eid_occ r = content_occurrences gs dec h"
  by (simp add: scan_blob_def content_occurrences_def Let_def split: option.splits)

lemma scan_blob_dict:
  "sum_list (map snd (eid_dict (scan_blob gs dec st h))) =
     sum_list (map snd (eid_dict st)) + occ_or_zero (content_occurrences gs dec h)"
  by (simp add: scan_blob_def content_occurrences_def occ_or_zero_def Let_def
      sum_update_dictionary sum_Counter split: option.splits)


lemma scan_loop_rows:
  "\<exists>rs. rows (foldl (scan_blob gs dec) st hs) = rows st @ rs \<and>
        map sr_blob_hash rs = hs \<and>
        map sr_eid_occ rs = map (content_occurrences gs dec) hs"
proof (induction hs arbitrary: st)
  case Nil
  then show ?case by simp
next
  case (Cons h hs)
  obtain r where r: "rows (scan_blob gs dec st h) = rows st @ [r]" "sr_blob_hash r = h"
    "sr_eid_occ r = content_occurrences gs dec h"
    using scan_blob_rows[of gs dec st h] by blast
  obtain rs where rs: "rows (foldl (scan_blob gs dec) (scan_blob gs dec st h) hs) =
      rows (scan_blob gs dec st h) @ rs" "map sr_blob_hash rs = hs"
    "map sr_eid_occ rs = map (content_occurrences gs dec) hs"
    using Cons.IH[of "scan_blob gs dec st h"] by blast
  show ?case
    by (rule exI[of _ "r # rs"]) (simp add: r rs)
qed

lemma scan_loop_dict:
  "sum_list (map snd (eid_dict (foldl (scan_blob gs dec) st hs))) =
     sum_list (map snd (eid_dict st)) +
     sum_list (map (\<lambda>h. occ_or_zero (content_occurrences gs dec h)) hs)"
  by (induction hs arbitrary: st) (simp_all add: scan_blob_dict)

lemma analyze_rows:
  "\<exists>rs. rows (analyze_glob_hashes_for_pattern gs dec col) = rs \<and>
        map sr_blob_hash rs = unique (dropna col) \<and>
        map sr_eid_occ rs = map (content_occurrences gs dec) (unique (dropna col))"
  using scan_loop_rows[of gs dec "\<lparr>rows = [], eid_dict = [], fetched = []\<rparr>" "unique (dropna col)"]
  by (simp add: analyze_glob_hashes_for_pattern_def)


lemma analyze_hashes:
  "map sr_blob_hash (rows (analyze_glob_hashes_for_pattern gs dec col)) = unique (dropna col)"
  using analyze_rows[of gs dec col] by simp

lemma analyze_occs:
  "map sr_eid_occ (rows (analyze_glob_hashes_for_pattern gs dec col)) =
     map (content_occurrences gs dec) (unique (dropna col))"
  using analyze_rows[of gs dec col] by simp

lemma analyze_dict:
  "sum_list (map snd (eid_dict (analyze_glob_hashes_for_pattern gs dec col))) =
     sum_list (map (\<lambda>h. occ_or_zero (content_occurrences gs dec h)) (unique (dropna col)))"
  by (simp add: analyze_glob_hashes_for_pattern_def scan_loop_dict)

lemma example_scan:
  "analyze_glob_hashes_for_pattern example_git_show example_decode example_column =
   \<lparr>rows = [\<lparr>sr_blob_hash = ''b1'', sr_eid_occ = Some 3, sr_unique_occ = 2,
                sr_found_ids = [(''1234567'', 2), (''2000000'', 1)]\<rparr>,
             \<lparr>sr_blob_hash = ''b2'', sr_eid_occ = None, sr_unique_occ = 0, sr_found_ids = []\<rparr>,
             \<lparr>sr_blob_hash = ''b3'', sr_eid_occ = Some 0, sr_unique_occ = 0, sr_found_ids = []\<rparr>,
             \<lparr>sr_blob_hash = ''b4'', sr_eid_occ = None, sr_unique_occ = 0, sr_found_ids = []\<rparr>],
     eid_dict = [(''1234567'', 2), (''2000000'', 1)],
     fetched = [''b1'', ''b2'', ''b3'', ''b4'']\<rparr>"
  by code_simp

lemma example_no_ids: "regex_findall ''no ids here'' = []"
  by code_simp

lemma example_decode_b2: "example_decode [0xFF, 0xFE] = None"
  by code_simp

lemma example_decode_b3: "example_decode (ascii_bytes ''no ids here'') = Some ''no ids here''"
  by code_simp



text \<open>
  Claim C9. After the scan, the counts of the global ID-frequency table add up to the
  sum of the occurrence counts of the result rows, an unreadable object counting 0;
  and that is the sum, over the distinct non-null hashes of the table, of the
  occurrences in each object's content: every distinct object contributes once,
  whatever the number of table rows that carry its hash.
\<close>

theorem C9_global_frequency_sum:
  "sum_list (map snd (eid_dict (analyze_glob_hashes_for_pattern gs dec col))) =
     sum_list (map (\<lambda>r. occ_or_zero (sr_eid_occ r)) (rows (analyze_glob_hashes_for_pattern gs dec col))) \<and>
   sum_list (map snd (eid_dict (analyze_glob_hashes_for_pattern gs dec col))) =
     (\<Sum>h \<in> {h. Some h \<in> set col}. occ_or_zero (content_occurrences gs dec h))"
proof -
  let ?st = "analyze_glob_hashes_for_pattern gs dec col"
  have "map (\<lambda>r. occ_or_zero (sr_eid_occ r)) (rows ?st) = map occ_or_zero (map sr_eid_occ (rows ?st))"
    by simp
  also have "\<dots> = map (\<lambda>h. occ_or_zero (content_occurrences gs dec h)) (unique (dropna col))"
    unfolding analyze_occs by simp
  finally have a: "sum_list (map snd (eid_dict ?st)) =
      sum_list (map (\<lambda>r. occ_or_zero (sr_eid_occ r)) (rows ?st))"
    by (simp add: analyze_dict)
  have "sum_list (map (\<lambda>h. occ_or_zero (content_occurrences gs dec h)) (unique (dropna col))) =
      (\<Sum>h \<in> set (unique (dropna col)). occ_or_zero (content_occurrences gs dec h))"
    by (rule sum_list_distinct_conv_sum_set) (rule distinct_unique)
  then have b: "sum_list (map snd (eid_dict ?st)) =
      (\<Sum>h \<in> {h. Some h \<in> set col}. occ_or_zero (content_occurrences gs dec h))"
    by (simp add: analyze_dict set_unique set_dropna)
  show ?thesis using a b by blast
qed

theorem C9_global_frequency_sum_witness:
  "(\<Sum>h \<in> {h. Some h \<in> set example_column}.
      occ_or_zero (content_occurrences example_git_show example_decode h)) = 3"
  using C9_global_frequency_sum[of example_git_show example_decode example_column]
  by (simp add: example_scan)

text \<open>
  Claim C6. For every object the scan visits, the result has a row for it whatever
  happens to the fetch or the decoding, there or at any other object: when
  \<open>git show\<close> fails or the content is not UTF-8 the occurrence count of the row is
  the unknown value, and when the content is read it is the number of matches, so
  0 for a readable object without matches. The unknown value differs from 0.
\<close>

theorem C6_unreadable_is_unknown:
  assumes "Some h \<in> set col"
  shows "\<exists>r. r \<in> set (rows (analyze_glob_hashes_for_pattern gs dec col)) \<and> sr_blob_hash r = h \<and>
     sr_eid_occ r =
       (case gs h of
          None \<Rightarrow> None
        | Some out \<Rightarrow> (case dec out of None \<Rightarrow> None
                       | Some text \<Rightarrow> Some (length (regex_findall text))))"
proof -
  let ?rs = "rows (analyze_glob_hashes_for_pattern gs dec col)"
  have "h \<in> set (map sr_blob_hash ?rs)"
    using assms by (simp add: analyze_hashes set_unique set_dropna)
  then obtain i where i: "i < length ?rs" "sr_blob_hash (?rs ! i) = h"
    by (auto simp: in_set_conv_nth)
  have "map sr_eid_occ ?rs ! i = map (content_occurrences gs dec) (map sr_blob_hash ?rs) ! i"
    by (simp add: analyze_occs analyze_hashes)
  then have "sr_eid_occ (?rs ! i) = content_occurrences gs dec h"
    using i by simp
  then show ?thesis using i unfolding content_occurrences_def by (intro exI[of _ "?rs ! i"]) simp
qed

theorem C6_unreadable_is_unknown_witness:
  "(\<exists>r. r \<in> set (rows (analyze_glob_hashes_for_pattern example_git_show example_decode
           example_column)) \<and> sr_blob_hash r = ''b2'' \<and> sr_eid_occ r = None) \<and>
   (\<exists>r. r \<in> set (rows (analyze_glob_hashes_for_pattern example_git_show example_decode
           example_column)) \<and> sr_blob_hash r = ''b3'' \<and> sr_eid_occ r = Some 0) \<and>
   (\<exists>r. r \<in> set (rows (analyze_glob_hashes_for_pattern example_git_show example_decode
           example_column)) \<and> sr_blob_hash r = ''b4'' \<and> sr_eid_occ r = None)"
  using C6_unreadable_is_unknown[of "''b2''" example_column example_git_show example_decode]
    C6_unreadable_is_unknown[of "''b3''" example_column example_git_show example_decode]
    C6_unreadable_is_unknown[of "''b4''" example_column example_git_show example_decode]
  by (simp add: example_column_def example_git_show_def example_decode_b2 example_decode_b3
      example_no_ids)

section \<open>Properties of the status function and the parsers\<close>



















lemma first_listing_failure_raises:
  assumes "ls_tree (format_commit c) = None"
  shows "get_blob_hashes_for_commits ls_tree (c # cs) = Inl UnboundLocalError"
  using assms by (simp add: get_blob_hashes_for_commits_def ls_tree_step_def)

lemma later_listing_failure_skipped:
  assumes "ls_tree (format_commit c) = None" "ls_tree_cmd st = Some prev"
  shows "ls_tree_step ls_tree st c = Inr (st\<lparr>printed := printed st @ [stderr prev]\<rparr>)"
  using assms by (simp add: ls_tree_step_def)

lemma listing_after_success:
  "get_blob_hashes_for_commits example_ls_tree [Some ''c1'', Some ''c2'', Some ''c1''] =
     Inr [\<lparr>te_commit = Some ''c1'', te_blob_hash = ''b1'', te_filename = ''a b.txt''\<rparr>]"
  by code_simp

text \<open>
  Claim C7 fails on the code: when the listing of the first commit fails, the handler
  reads the unbound name \<open>ls_tree_cmd\<close> and the function raises
  \<open>UnboundLocalError\<close>, where the claim asks for the entries of the other commits;
  the whole run ends with that exception.
\<close>

theorem C7_first_commit_failure_raises:
  "get_blob_hashes_for_commits example_ls_tree [Some ''c2'', Some ''c1''] = Inl UnboundLocalError \<and>
   entries_of_listed_commits example_ls_tree [Some ''c2'', Some ''c1''] =
     Inr [\<lparr>te_commit = Some ''c1'', te_blob_hash = ''b1'', te_filename = ''a b.txt''\<rparr>] \<and>
   audit_repository example_ls_tree example_git_show example_decode example_guess_type 4300
     example_copy_log example_sizes = Inl UnboundLocalError"
  by code_simp

text \<open>
  Claim C8 fails on the code: a copy line is parsed by the branch for one-path
  lines, so the event carries the old path as its file name and an empty
  \<open>old_filename\<close>; the rename line beside it is recorded as the claim says.
\<close>

theorem C8_copy_line_records_old_path:
  "parse_full_log_to_dataframe example_copy_log =
     Inr [logged_event ''C100'' ''old.txt'' [], logged_event ''R090'' ''b.txt'' ''a.txt''] \<and>
   two_path_event ''R090'' ''a.txt'' ''b.txt'' (logged_event ''R090'' ''b.txt'' ''a.txt'') \<and>
   \<not> two_path_event ''C100'' ''old.txt'' ''new.txt'' (logged_event ''C100'' ''old.txt'' [])"
  by code_simp

section \<open>Properties of the joined table\<close>

lemma left_join_None:
  "(l, None) \<in> set (left_join lk rk ls rs) \<longleftrightarrow> l \<in> set ls \<and> (\<forall>r \<in> set rs. rk r \<noteq> lk l)"
  by (auto simp add: left_join_def filter_empty_conv)

lemma left_join_Some:
  "(l, Some r) \<in> set (left_join lk rk ls rs) \<longleftrightarrow> l \<in> set ls \<and> r \<in> set rs \<and> rk r = lk l"
  by (auto simp add: left_join_def filter_empty_conv)

lemma left_join_fst: "p \<in> set (left_join lk rk ls rs) \<Longrightarrow> fst p \<in> set ls"
  by (auto simp add: left_join_def split: if_splits)

lemma make_rows_sound:
  "make_rows gt lim js = Inr out \<Longrightarrow> r \<in> set out \<Longrightarrow>
   \<exists>j st. j \<in> set js \<and> r = make_row gt j st"
proof (induction js arbitrary: out)
  case Nil
  then show ?case by simp
next
  case (Cons j js)
  from Cons.prems(1) obtain st out' where
    st: "contextualise_git_status lim (Str (ce_status (fst (fst (fst j))))) = Inr st"
    and o': "make_rows gt lim js = Inr out'" and out: "out = make_row gt j st # out'"
    by (auto split: sum.splits)
  show ?case
  proof (cases "r = make_row gt j st")
    case True
    then show ?thesis by (intro exI[of _ j] exI[of _ st]) simp
  next
    case False
    then have "r \<in> set out'" using Cons.prems(2) out by simp
    from Cons.IH[OF o' this] obtain j0 st0 where "j0 \<in> set js" "r = make_row gt j0 st0"
      by blast
    then show ?thesis by (intro exI[of _ j0] exI[of _ st0]) simp
  qed
qed

lemma make_rows_complete:
  "make_rows gt lim js = Inr out \<Longrightarrow> j \<in> set js \<Longrightarrow> \<exists>st. make_row gt j st \<in> set out"
proof (induction js arbitrary: out)
  case Nil
  then show ?case by simp
next
  case (Cons j' js)
  from Cons.prems(1) obtain st out' where
    o': "make_rows gt lim js = Inr out'" and out: "out = make_row gt j' st # out'"
    by (auto split: sum.splits)
  show ?case
  proof (cases "j = j'")
    case True
    then show ?thesis using out by (intro exI[of _ st]) simp
  next
    case False
    then have "j \<in> set js" using Cons.prems(2) by simp
    from Cons.IH[OF o' this] obtain st0 where "make_row gt j st0 \<in> set out'" by blast
    then show ?thesis using out by (intro exI[of _ st0]) simp
  qed
qed

lemma analyze_row_occ:
  assumes "r \<in> set (rows (analyze_glob_hashes_for_pattern gs dec col))"
  shows "sr_eid_occ r = content_occurrences gs dec (sr_blob_hash r)"
proof -
  let ?rs = "rows (analyze_glob_hashes_for_pattern gs dec col)"
  from assms obtain i where i: "i < length ?rs" "?rs ! i = r" by (auto simp: in_set_conv_nth)
  have "map sr_eid_occ ?rs ! i = map (content_occurrences gs dec) (map sr_blob_hash ?rs) ! i"
    by (simp add: analyze_occs analyze_hashes)
  then show ?thesis using i by simp
qed

lemma analyze_row_exists:
  assumes "Some h \<in> set col"
  shows "\<exists>r \<in> set (rows (analyze_glob_hashes_for_pattern gs dec col)). sr_blob_hash r = h"
proof -
  have "h \<in> set (map sr_blob_hash (rows (analyze_glob_hashes_for_pattern gs dec col)))"
    using assms by (simp add: analyze_hashes set_unique set_dropna)
  then show ?thesis by auto
qed

lemma audit_rows_Report:
  assumes "audit_rows gs dec gt lim lg trees sizes = Inr (Report out eids)"
  shows "make_rows gt lim (joined_of gs dec lg trees sizes) = Inr out"
  using assms
  by (auto simp add: audit_rows_def joined_of_def merge_records_def Let_def
      split: if_splits sum.splits)

lemma joined_scan_occ:
  assumes "j \<in> set (joined_of gs dec lg trees sizes)"
  shows "(case snd j of None \<Rightarrow> None | Some x \<Rightarrow> sr_eid_occ x) =
         (case row_blob_hash (fst (fst j)) of None \<Rightarrow> None
          | Some h \<Rightarrow> content_occurrences gs dec h)"
proof -
  define merged_df where "merged_df = left_join (\<lambda>e. (ce_commit e, ce_filename e))
                        (\<lambda>t. (te_commit t, te_filename t)) lg trees"
  define final_df where "final_df = left_join row_blob_hash (\<lambda>s. Some (fst s)) merged_df sizes"
  define col where "col = map (\<lambda>f. row_blob_hash (fst f)) final_df"
  define scan where "scan = analyze_glob_hashes_for_pattern gs dec col"
  have j: "j \<in> set (left_join (\<lambda>f. row_blob_hash (fst f)) (\<lambda>r. Some (sr_blob_hash r))
                       final_df (rows scan))"
    using assms unfolding joined_of_def Let_def merged_df_def final_df_def col_def scan_def .
  obtain f ro where jf: "j = (f, ro)" by (cases j)
  show ?thesis
  proof (cases ro)
    case None
    then have f: "f \<in> set final_df" and
      no: "\<forall>r \<in> set (rows scan). Some (sr_blob_hash r) \<noteq> row_blob_hash (fst f)"
      using j jf by (simp_all add: left_join_None)
    have "row_blob_hash (fst f) = None"
    proof (cases "row_blob_hash (fst f)")
      case (Some h)
      then have "Some h \<in> set col" using f unfolding col_def by force
      then obtain r where "r \<in> set (rows scan)" "sr_blob_hash r = h"
        unfolding scan_def using analyze_row_exists by blast
      then show ?thesis using no Some by auto
    qed simp
    then show ?thesis using None jf by simp
  next
    case (Some r)
    then have r: "r \<in> set (rows scan)" "Some (sr_blob_hash r) = row_blob_hash (fst f)"
      using j jf by (simp_all add: left_join_Some)
    have "sr_eid_occ r = content_occurrences gs dec (sr_blob_hash r)"
      using r(1) unfolding scan_def by (rule analyze_row_occ)
    then show ?thesis using Some jf r(2)[symmetric] by simp
  qed
qed

lemma make_row_fields:
  "ar_total_occ (make_row gt j st) =
     int (occ_or_zero (ar_eid_occ (make_row gt j st))) + int (ar_filename_occ (make_row gt j st))"
  "ar_filename_occ (make_row gt j st) =
     (if regex_search (ar_filename (make_row gt j st)) then 1 else 0)"
  "ar_eid_occ (make_row gt j st) = (case snd j of None \<Rightarrow> None | Some x \<Rightarrow> sr_eid_occ x)"
  "ar_blob_hash (make_row gt j st) = row_blob_hash (fst (fst j))"
  by (simp_all add: make_row_def Let_def filename_occ_def row_blob_hash_def)

lemma final_table_rows:
  assumes "final_table gs dec gt lim lg trees sizes tbl"
  obtains out eids where "audit_rows gs dec gt lim lg trees sizes = Inr (Report out eids)"
    "mset tbl = mset out" "sorted_wrt (\<lambda>a b. ar_total_occ b \<le> ar_total_occ a) tbl"
  using assms
  by (auto simp add: final_table_def sort_values_desc_def split: sum.splits audit_outcome.splits)


lemma unmatched_event_kept:
  assumes "audit_rows gs dec gt lim lg trees sizes = Inr (Report out eids)"
    and "e \<in> set lg"
    and "\<forall>t \<in> set trees. (te_commit t, te_filename t) \<noteq> (ce_commit e, ce_filename e)"
  shows "\<exists>r. r \<in> set out \<and> ar_commit r = ce_commit e \<and> ar_filename r = ce_filename e \<and>
           ar_old_filename r = ce_old_filename e \<and>
           ar_blob_hash r = None \<and> ar_size_bytes r = None \<and> ar_eid_occ r = None \<and>
           ar_unique_occ r = None \<and> ar_found_ids r = None \<and>
           ar_filename_occ r = filename_occ (ce_filename e) \<and>
           ar_file_ext r = file_ext gt (ce_filename e)"
proof -
  let ?j = "(((e, None), None), None) :: joined_row"
  have "?j \<in> set (joined_of gs dec lg trees sizes)"
    unfolding joined_of_def Let_def
    using assms(2,3) by (simp add: left_join_None row_blob_hash_def)
  then obtain st where "make_row gt ?j st \<in> set out"
    using make_rows_complete[OF audit_rows_Report[OF assms(1)]] by blast
  then show ?thesis
    by (intro exI[of _ "make_row gt ?j st"]) (simp add: make_row_def Let_def)
qed


lemma example_final:
  "final_table example_git_show example_decode example_guess_type 4300 example_log
     example_trees example_sizes [row_csv, row_deleted, row_notes, row_bin]"
  by code_simp


lemma left_join_no_match:
  assumes "\<forall>l \<in> set ls. \<forall>r \<in> set rs. rk r \<noteq> lk l"
  shows "left_join lk rk ls rs = map (\<lambda>l. (l, None)) ls"
  using assms
proof (induction ls)
  case Nil
  then show ?case by (simp add: left_join_def)
next
  case (Cons l ls)
  then have "filter (\<lambda>r. rk r = lk l) rs = []" by (auto simp: filter_empty_conv)
  moreover have "left_join lk rk ls rs = map (\<lambda>l. (l, None)) ls" using Cons by simp
  ultimately show ?case by (simp add: left_join_def)
qed

lemma dropna_all_None: "\<forall>x \<in> set xs. x = None \<Longrightarrow> dropna xs = []"
  by (induction xs) auto

lemma all_unmatched_raises:
  assumes "lg \<noteq> []"
    and "\<forall>e \<in> set lg. \<forall>t \<in> set trees. (te_commit t, te_filename t) \<noteq> (ce_commit e, ce_filename e)"
  shows "audit_rows gs dec gt lim lg trees sizes = Inl KeyError"
proof (cases "trees = []")
  case True
  then show ?thesis using assms(1) by (simp add: audit_rows_def merge_records_def)
next
  case False
  let ?merged = "map (\<lambda>e. (e, None :: tree_entry option)) lg"
  have m: "left_join (\<lambda>e. (ce_commit e, ce_filename e)) (\<lambda>t. (te_commit t, te_filename t)) lg trees
           = ?merged"
    using assms(2) by (intro left_join_no_match) simp
  have f: "left_join row_blob_hash (\<lambda>s. Some (fst s)) ?merged sizes = map (\<lambda>m. (m, None)) ?merged"
    by (intro left_join_no_match) (simp add: row_blob_hash_def)
  have "dropna (map (\<lambda>f. row_blob_hash (fst f)) (map (\<lambda>m. (m, None :: (string \<times> nat) option)) ?merged)) = []"
    by (intro dropna_all_None) (simp add: row_blob_hash_def)
  then have "rows (analyze_glob_hashes_for_pattern gs dec
      (map (\<lambda>f. row_blob_hash (fst f)) (map (\<lambda>m. (m, None :: (string \<times> nat) option)) ?merged))) = []"
    by (simp add: analyze_glob_hashes_for_pattern_def)
  then show ?thesis
    using assms(1) False by (simp add: audit_rows_def merge_records_def m f Let_def)
qed

text \<open>
  Claim C3. For every row of the final table, \<open>total_occ\<close> is the content occurrence
  count of the row, the unknown value counting 0, plus the file-name flag; the flag
  is 1 when the pattern is found in the path and 0 otherwise; the content count is
  unknown for a row without blob and the count of the scan of its blob otherwise;
  and \<open>total_occ\<close> is never negative.
\<close>

theorem C3_total_occ:
  assumes "final_table gs dec gt lim lg trees sizes tbl" "r \<in> set tbl"
  shows "ar_total_occ r = int (occ_or_zero (ar_eid_occ r)) + int (ar_filename_occ r) \<and>
         ar_filename_occ r = (if regex_search (ar_filename r) then 1 else 0) \<and>
         ar_eid_occ r = (case ar_blob_hash r of None \<Rightarrow> None
                         | Some h \<Rightarrow> content_occurrences gs dec h) \<and>
         0 \<le> ar_total_occ r"
proof -
  from assms(1) obtain out eids where
    a: "audit_rows gs dec gt lim lg trees sizes = Inr (Report out eids)" and m: "mset tbl = mset out"
    by (rule final_table_rows)
  have "r \<in> set out" using assms(2) m by (metis set_mset_mset)
  then obtain j st where j: "j \<in> set (joined_of gs dec lg trees sizes)" and r: "r = make_row gt j st"
    using make_rows_sound[OF audit_rows_Report[OF a]] by blast
  have t: "ar_total_occ r = int (occ_or_zero (ar_eid_occ r)) + int (ar_filename_occ r)"
    unfolding r by (rule make_row_fields(1))
  have "ar_eid_occ r = (case ar_blob_hash r of None \<Rightarrow> None
                         | Some h \<Rightarrow> content_occurrences gs dec h)"
    unfolding r make_row_fields(3,4) using j by (rule joined_scan_occ)
  moreover have "ar_filename_occ r = (if regex_search (ar_filename r) then 1 else 0)"
    unfolding r by (rule make_row_fields(2))
  moreover have "0 \<le> ar_total_occ r" unfolding t by simp
  ultimately show ?thesis using t by blast
qed

theorem C3_total_occ_witness:
  "final_table example_git_show example_decode example_guess_type 4300 example_log
     example_trees example_sizes [row_csv, row_deleted, row_notes, row_bin] \<and>
   ar_total_occ row_csv = 4 \<and> ar_filename_occ row_csv = 1 \<and> regex_search (ar_filename row_csv) \<and>
   content_occurrences example_git_show example_decode ''b1'' = Some 3"
proof -
  have mem: "row_csv \<in> set [row_csv, row_deleted, row_notes, row_bin]" by simp
  note t = C3_total_occ[OF example_final mem]
  have h: "ar_blob_hash row_csv = Some ''b1''" "ar_eid_occ row_csv = Some 3"
    "ar_filename_occ row_csv = 1" "ar_total_occ row_csv = 4"
    by (simp_all add: row_csv_def example_row_def)
  from t have "ar_eid_occ row_csv =
      (case ar_blob_hash row_csv of None \<Rightarrow> None
       | Some h \<Rightarrow> content_occurrences example_git_show example_decode h)"
    by blast
  then have c: "content_occurrences example_git_show example_decode ''b1'' = Some 3"
    unfolding h by simp
  from t have "ar_filename_occ row_csv = (if regex_search (ar_filename row_csv) then 1 else 0)"
    by blast
  then have s: "regex_search (ar_filename row_csv)"
    unfolding h by (simp split: if_splits)
  show ?thesis using example_final h(3,4) c s by blast
qed




text \<open>
  Claim C5 fails on the code for a history in which no logged path has a tree entry:
  the scan then returns no rows, the frame built from them has no \<open>blob_hash\<close>
  column, and the merge raises \<open>KeyError\<close>; with no tree entries at all the first
  merge raises it. No table is produced, so the rows of the change events are lost.
\<close>

theorem C5_unmatched_history_raises:
  "audit_rows example_git_show example_decode example_guess_type 4300 unmatched_log
     unmatched_trees example_sizes = Inl KeyError \<and>
   audit_rows example_git_show example_decode example_guess_type 4300 unmatched_log
     [] example_sizes = Inl KeyError"
  by code_simp

end
